theory Spec2Isabelle
  imports Main
begin

section \<open>Strings\<close>

text \<open>
  A Go string is a sequence of bytes; it is modelled as a \<open>string\<close> (a list of 8-bit
  characters).

  \<open>strings.Split(s, sep)\<close> is modelled for a separator of one byte, which is how
  \<open>Load\<close> calls it (\<open>strings.Split(filename, ".")\<close>). The result has one more
  element than \<open>s\<close> has separators, so it is never empty.
\<close>

fun Split :: "string \<Rightarrow> char \<Rightarrow> string list" where
  "Split [] sep = [[]]"
| "Split (c # cs) sep =
     (if c = sep then [] # Split cs sep
      else (case Split cs sep of [] \<Rightarrow> [[c]] | p # ps \<Rightarrow> (c # p) # ps))"

text \<open>
  \<open>strings.ToLower\<close>, on ASCII: the upper-case ASCII letters are mapped to their
  lower-case letters, every other byte is kept. Go also lower-cases the letters outside
  ASCII and replaces a byte that is not valid UTF-8 by U+FFFD, which the model does not.
  None of these becomes an ASCII letter of \<open>json\<close>, \<open>xml\<close>, \<open>yml\<close> or \<open>yaml\<close> (only U+0130
  and U+212A map into ASCII, to \<open>i\<close> and \<open>k\<close>), so whether a lower-cased extension is one
  of these four tags, the only use \<open>Load\<close> makes of it, is the same in the model and in
  Go; whether two extensions outside ASCII have the same lower case is not.
\<close>

definition ToLower_byte :: "char \<Rightarrow> char" where
  "ToLower_byte c =
     (case map_of (zip ''ABCDEFGHIJKLMNOPQRSTUVWXYZ'' ''abcdefghijklmnopqrstuvwxyz'') c of
        None \<Rightarrow> c
      | Some d \<Rightarrow> d)"

definition ToLower :: "string \<Rightarrow> string" where
  "ToLower s = map ToLower_byte s"

section \<open>Regular expressions\<close>

text \<open>
  The fragment of Go's \<open>regexp\<close> syntax that the registry's patterns are written in:
  \<open>^\<close> and \<open>$\<close> (begin and end of the text: Go compiles patterns without the
  multi-line flag), a literal byte, \<open>.\<close> (any character but the line feed: Go compiles
  patterns without the \<open>s\<close> flag), a negated class \<open>[^...]\<close> of single bytes (which
  does match a line feed), concatenation, alternation, \<open>*\<close>, \<open>+\<close> and a capture
  group. Go matches by character and the model by byte; for patterns whose literals and
  classes are ASCII, as here, the two agree, since no byte of a multi-byte character is
  an ASCII byte.
\<close>

datatype Regexp =
    EmptyMatch
  | BeginText
  | EndText
  | Lit char
  | AnyCharNotNL
  | NotChars "char list"
  | Cat Regexp Regexp
  | Alt Regexp Regexp
  | Star Regexp
  | Plus Regexp
  | Cap Regexp

text \<open>
  A cursor is a position in the text together with the bytes from that position on.
  \<open>advance re cur\<close> lists the cursors at which a match of \<open>re\<close> that starts at \<open>cur\<close>
  can end.
\<close>

type_synonym cursor = "nat \<times> string"

definition advance_byte :: "(char \<Rightarrow> bool) \<Rightarrow> cursor \<Rightarrow> cursor list" where
  "advance_byte ok cur =
     (case snd cur of
        [] \<Rightarrow> []
      | x # xs \<Rightarrow> if ok x then [(fst cur + 1, xs)] else [])"

text \<open>
  Zero or more matches of the repeated expression, one after the other. A repetition
  that consumes nothing ends where it started and adds no cursor, so only repetitions
  that consume at least one byte are followed.
\<close>

function star_iter :: "(cursor \<Rightarrow> cursor list) \<Rightarrow> cursor \<Rightarrow> cursor list" where
  "star_iter f cur =
     cur # concat (map (star_iter f)
                    (filter (\<lambda>cur'. length (snd cur') < length (snd cur)) (f cur)))"
  by pat_completeness auto
termination
  by (relation "measure (\<lambda>(f, cur). length (snd cur))") auto

declare star_iter.simps [simp del]

primrec advance :: "Regexp \<Rightarrow> cursor \<Rightarrow> cursor list" where
  "advance EmptyMatch cur = [cur]"
| "advance BeginText cur = (if fst cur = 0 then [cur] else [])"
| "advance EndText cur = (if snd cur = [] then [cur] else [])"
| "advance (Lit c) cur = advance_byte (\<lambda>x. x = c) cur"
| "advance AnyCharNotNL cur = advance_byte (\<lambda>x. x \<noteq> CHR 0x0A) cur"
| "advance (NotChars cs) cur = advance_byte (\<lambda>x. x \<notin> set cs) cur"
| "advance (Cat r1 r2) cur = concat (map (advance r2) (advance r1 cur))"
| "advance (Alt r1 r2) cur = advance r1 cur @ advance r2 cur"
| "advance (Star r) cur = star_iter (advance r) cur"
| "advance (Plus r) cur = concat (map (star_iter (advance r)) (advance r cur))"
| "advance (Cap r) cur = advance r cur"

text \<open>
  \<open>re.MatchString(s)\<close> reports whether \<open>s\<close> contains any match of \<open>re\<close>: a match may
  start at any position of the text.
\<close>

definition MatchString :: "Regexp \<Rightarrow> string \<Rightarrow> bool" where
  "MatchString re s = list_ex (\<lambda>i. advance re (i, drop i s) \<noteq> []) [0..<length s + 1]"

definition Seq :: "Regexp list \<Rightarrow> Regexp" where
  "Seq rs = foldr Cat rs EmptyMatch"

text \<open>\<^verbatim>\<open>var reS3Filename = regexp.MustCompile(`^s3:\/\/([^\/]+)\/(.*)$`)\<close>\<close>

definition reS3Filename :: Regexp where
  "reS3Filename =
     Seq [BeginText,
          Lit CHR ''s'', Lit CHR ''3'', Lit CHR '':'', Lit CHR ''/'', Lit CHR ''/'',
          Cap (Plus (NotChars ''/'')),
          Lit CHR ''/'',
          Cap (Star AnyCharNotNL),
          EndText]"

section \<open>Errors, streams and handles\<close>

text \<open>
  \<open>ErrorNoReader\<close> is the package's own error value, and \<open>ErrorBadMatch\<close> is the error
  that \<open>S3Loader\<close> makes of a filename its pattern does not match
  (\<open>Impossible bad match passed to S3Loader\<close>). The errors of the collaborators
  (a provider, a decoder, a read or a close of a stream) are opaque to the package and
  carry their message only. \<open>PanicIndexOutOfRange\<close> stands for the run-time panic of an
  index expression out of range.
\<close>

datatype error =
    ErrorNoReader
  | ErrorBadMatch
  | CollaboratorError string
  | PanicIndexOutOfRange

text \<open>
  The byte stream behind an \<open>io.Reader\<close>: the bytes it has not yielded yet, and the error
  it reports once they are exhausted (\<open>None\<close> for \<open>io.EOF\<close>).
\<close>

record Stream =
  pending :: string
  fault :: "error option"

text \<open>
  The value a provider returns as \<open>io.Reader\<close>. \<open>closer\<close> is \<open>None\<close> when the dynamic
  type has no \<open>Close\<close> method (the type assertion \<open>reader.(io.Closer)\<close> fails), and
  \<open>Some res\<close> when it has one that returns \<open>res\<close>. \<open>closes\<close> counts the calls of \<open>Close\<close>
  made on the handle.
\<close>

record Reader =
  stream :: Stream
  closer :: "error option option"
  closes :: nat

text \<open>\<open>Close\<close> is called on a reader that has the method; on any other it does nothing.\<close>

definition Close :: "Reader \<Rightarrow> error option \<times> Reader" where
  "Close r = (case closer r of
                None \<Rightarrow> (None, r)
              | Some res \<Rightarrow> (res, r\<lparr>closes := closes r + 1\<rparr>))"

text \<open>
  \<open>ioutil.ReadAll\<close> reads until the stream ends or fails, and returns the bytes read
  together with the error (\<open>nil\<close> at \<open>io.EOF\<close>).
\<close>

definition ReadAll :: "Stream \<Rightarrow> (string \<times> error option) \<times> Stream" where
  "ReadAll s = ((pending s, fault s), s\<lparr>pending := []\<rparr>)"

text \<open>
  An \<open>io.ReadCloser\<close> as \<open>GetReadCloser\<close> returns it: the provider's own value, or that
  value inside \<open>ioutil.NopCloser\<close>, whose \<open>Close\<close> returns \<open>nil\<close> and does not touch the
  wrapped reader.
\<close>

datatype ReadCloser = Own Reader | NopCloser Reader

fun ReadCloser_stream :: "ReadCloser \<Rightarrow> Stream" where
  "ReadCloser_stream (Own r) = stream r"
| "ReadCloser_stream (NopCloser r) = stream r"

fun ReadCloser_Close :: "ReadCloser \<Rightarrow> error option \<times> ReadCloser" where
  "ReadCloser_Close (Own r) = (case Close r of (res, r') \<Rightarrow> (res, Own r'))"
| "ReadCloser_Close (NopCloser r) = (None, NopCloser r)"

section \<open>Providers and the registry\<close>

text \<open>
  The implementations of the interface \<open>TypeLoader\<close>: the package's \<open>S3Loader\<close> and
  \<open>FileLoader\<close>, and any other implementation, told apart by a tag. What a provider's
  \<open>GetReader\<close> returns for a filename is input and output outside the package (the
  request that \<open>S3Loader\<close> sends for the bucket and the key of the filename, the
  \<open>os.Open\<close> of \<open>FileLoader\<close>); the \<open>World\<close> gives it. A provider returns either an
  error or a reader.
\<close>

datatype TypeLoader = S3Loader | FileLoader | OtherLoader nat

type_synonym World = "TypeLoader \<Rightarrow> string \<Rightarrow> error + Reader"

text \<open>
  \<open>S3Loader.GetReader\<close> returns its error when \<open>reS3Filename.FindStringSubmatch\<close> does not
  give three parts, which is when the filename does not match (a match of this pattern
  has the whole match and two groups); otherwise it requests the object.
  \<open>FileLoader.GetReader\<close> is \<open>os.Open\<close>.
\<close>

definition TypeLoader_GetReader :: "World \<Rightarrow> TypeLoader \<Rightarrow> string \<Rightarrow> error + Reader" where
  "TypeLoader_GetReader w rg filename =
     (case rg of
        S3Loader \<Rightarrow>
          if \<not> MatchString reS3Filename filename then Inl ErrorBadMatch
          else w S3Loader filename
      | FileLoader \<Rightarrow> w FileLoader filename
      | OtherLoader n \<Rightarrow> w (OtherLoader n) filename)"

text \<open>
  \<^verbatim>\<open>type Loader struct { types map[*regexp.Regexp]TypeLoader; fallback TypeLoader }\<close>

  The map is given by its entries. Its keys are pointers, so every entry is a key of its
  own, also when two patterns are equal. The entries are listed in the order in which
  they were registered (the order of the composite literal); the map itself does not
  keep that order. A value of the interface type can be \<open>nil\<close>: \<open>None\<close>.
\<close>

record Loader =
  types :: "(Regexp \<times> TypeLoader option) list"
  fallback :: "TypeLoader option"

text \<open>
  Go does not specify the order in which \<open>range\<close> visits the entries of a map, and the
  order may differ from one loop to the next. Each loop over the map therefore takes the
  order as an argument: a list of the entries' indices, each index once.
\<close>

definition iteration_order :: "Loader \<Rightarrow> nat list \<Rightarrow> bool" where
  "iteration_order l ord = (distinct ord \<and> set ord = {0..<length (types l)})"

text \<open>
  The loop of \<open>getReaderGetter\<close> over the entries as visited: \<open>Some getter\<close> when the
  loop returns from its body, \<open>None\<close> when it runs to its end.
\<close>

fun range_types :: "(Regexp \<times> TypeLoader option) list \<Rightarrow> string \<Rightarrow> TypeLoader option option" where
  "range_types [] filename = None"
| "range_types ((re, getter) # rest) filename =
     (if MatchString re filename then Some getter else range_types rest filename)"

definition getReaderGetter :: "Loader \<Rightarrow> nat list \<Rightarrow> string \<Rightarrow> TypeLoader option" where
  "getReaderGetter l ord filename =
     (case range_types (map (\<lambda>i. types l ! i) ord) filename of
        Some getter \<Rightarrow> getter
      | None \<Rightarrow> fallback l)"

definition GetReader :: "Loader \<Rightarrow> nat list \<Rightarrow> World \<Rightarrow> string \<Rightarrow> error + Reader" where
  "GetReader l ord w filename =
     (case getReaderGetter l ord filename of
        None \<Rightarrow> Inl ErrorNoReader
      | Some rg \<Rightarrow> TypeLoader_GetReader w rg filename)"

definition GetReadCloser :: "Loader \<Rightarrow> nat list \<Rightarrow> World \<Rightarrow> string \<Rightarrow> error + ReadCloser" where
  "GetReadCloser l ord w filename =
     (case GetReader l ord w filename of
        Inl err \<Rightarrow> Inl err
      | Inr r \<Rightarrow> (case closer r of
                    Some res \<Rightarrow> Inr (Own r)
                  | None \<Rightarrow> Inr (NopCloser r)))"

definition DefaultLoader :: Loader where
  "DefaultLoader = \<lparr>types = [(reS3Filename, Some S3Loader)], fallback = Some FileLoader\<rparr>"

section \<open>Load\<close>

text \<open>
  The decoders are libraries outside the package. \<open>json.NewDecoder(reader).Decode(into)\<close>
  and \<open>xml.NewDecoder(reader).Decode(into)\<close> read from the stream themselves: they are
  given the stream and the target and return the error, the target as they leave it and
  the stream as they leave it; they use the reader through \<open>Read\<close> only.
  \<open>yaml.Unmarshal(b, into)\<close> is given the bytes.
\<close>

record 'v Decoders =
  json_Decode :: "Stream \<Rightarrow> 'v \<Rightarrow> (error option \<times> 'v) \<times> Stream"
  xml_Decode :: "Stream \<Rightarrow> 'v \<Rightarrow> (error option \<times> 'v) \<times> Stream"
  yaml_Unmarshal :: "string \<Rightarrow> 'v \<Rightarrow> error option \<times> 'v"

text \<open>
  \<^verbatim>\<open>fileDotParts := strings.Split(filename, ".")\<close>
  \<^verbatim>\<open>fileExtension := fileDotParts[len(fileDotParts)-1]\<close>
  The index expression panics when the index is out of range.
\<close>

definition fileExtension :: "string \<Rightarrow> error + string" where
  "fileExtension filename =
     (let fileDotParts = Split filename CHR ''.'';
          i = int (length fileDotParts) - 1
      in if 0 \<le> i \<and> i < int (length fileDotParts) then Inr (fileDotParts ! nat i)
         else Inl PanicIndexOutOfRange)"

text \<open>
  What \<open>fileExtension\<close> is, in closed form (lemma \<open>fileExtension_after_last_separator\<close>):
  the bytes of the filename after its last \<open>.\<close>, and all of the filename when it has
  no \<open>.\<close>, since \<open>strings.Split\<close> then returns the filename as the only element.
\<close>

definition after_last_separator :: "string \<Rightarrow> string" where
  "after_last_separator filename = rev (takeWhile (\<lambda>c. c \<noteq> CHR ''.'') (rev filename))"

text \<open>
  Lines 35 to 50 of \<open>Load\<close>: what runs on the acquired stream, from the split of the
  filename to the \<open>return\<close> of the chosen branch.
\<close>

definition Load_decode ::
  "'v Decoders \<Rightarrow> string \<Rightarrow> Stream \<Rightarrow> 'v \<Rightarrow> (error option \<times> 'v) \<times> Stream" where
  "Load_decode dec filename s into =
     (case fileExtension filename of
        Inl panic \<Rightarrow> ((Some panic, into), s)
      | Inr ext \<Rightarrow>
          (let tag = ToLower ext in
           if tag = ''json'' then json_Decode dec s into
           else if tag = ''xml'' then xml_Decode dec s into
           else if tag = ''yml'' \<or> tag = ''yaml'' then
             (case ReadAll s of
                ((b, Some err), s') \<Rightarrow> ((Some err, into), s')
              | ((b, None), s') \<Rightarrow> (yaml_Unmarshal dec b into, s'))
           else json_Decode dec s into))"

text \<open>
  What a call of \<open>Load\<close> leaves behind: the error it returns, the target, and the handle
  it acquired (\<open>None\<close> when \<open>GetReader\<close> failed) in the state in which \<open>Load\<close> leaves it.
\<close>

record 'v Outcome =
  returned :: "error option"
  target :: 'v
  handle :: "Reader option"

text \<open>
  \<^verbatim>\<open>if readCloser, ok := reader.(io.Closer); ok { defer readCloser.Close() }\<close>
  The deferred call runs when \<open>Load\<close> returns, whichever \<open>return\<close> is taken after the
  \<open>defer\<close>; what \<open>Close\<close> returns is not used.
\<close>

definition Load :: "Loader \<Rightarrow> nat list \<Rightarrow> World \<Rightarrow> 'v Decoders \<Rightarrow> string \<Rightarrow> 'v \<Rightarrow> 'v Outcome" where
  "Load l ord w dec filename into =
     (case GetReader l ord w filename of
        Inl err \<Rightarrow> \<lparr>returned = Some err, target = into, handle = None\<rparr>
      | Inr reader \<Rightarrow>
          (case Load_decode dec filename (stream reader) into of
             ((err, into'), s') \<Rightarrow>
               \<lparr>returned = err, target = into',
                handle = Some (case closer reader of
                                 None \<Rightarrow> reader\<lparr>stream := s'\<rparr>
                               | Some res \<Rightarrow> snd (Close (reader\<lparr>stream := s'\<rparr>)))\<rparr>))"

section \<open>The specification's words\<close>

text \<open>
  "If two patterns both match the same identifier, the earlier-registered binding
  wins": the value bound to the first pattern, in registration order, that matches.
\<close>

definition first_registered_match :: "Loader \<Rightarrow> string \<Rightarrow> TypeLoader option option" where
  "first_registered_match l filename = range_types (types l) filename"

text \<open>
  "FormatTag: ... the substring after the last separator character", and
  "identifier \<open>noext\<close> (no suffix)", "any other suffix (including none)": an identifier
  has a suffix when it has a separator, and then the suffix is what follows the last
  one; an identifier with no separator has no suffix.
\<close>

definition suffix_after_last_separator :: "string \<Rightarrow> string option" where
  "suffix_after_last_separator identifier =
     (if CHR ''.'' \<in> set identifier
      then Some (rev (takeWhile (\<lambda>c. c \<noteq> CHR ''.'') (rev identifier)))
      else None)"

section \<open>Example registries, providers and decoders\<close>

text \<open>
  A registry with the pattern of the S3 filenames and a catch-all pattern (\<open>.*\<close>), which
  both match every S3 filename.
\<close>

definition overlapping :: Loader where
  "overlapping =
     \<lparr>types = [(reS3Filename, Some S3Loader), (Star AnyCharNotNL, Some FileLoader)],
      fallback = None\<rparr>"

text \<open>
  A registry with the pattern of the S3 filenames, a pattern for in-memory content
  (\<open>^mem:\<close>) and the local files as fallback: no identifier matches both patterns.
\<close>

definition s3_and_memory :: Loader where
  "s3_and_memory =
     \<lparr>types = [(reS3Filename, Some S3Loader),
               (Seq [BeginText, Lit CHR ''m'', Lit CHR ''e'', Lit CHR ''m'', Lit CHR '':''],
                Some (OtherLoader 0))],
      fallback = Some FileLoader\<rparr>"

text \<open>
  A registry whose one pattern (\<open>^mem:\<close>) is bound to \<open>nil\<close>, with the local files as
  fallback.
\<close>

definition bound_to_nil :: Loader where
  "bound_to_nil =
     \<lparr>types = [(Seq [BeginText, Lit CHR ''m'', Lit CHR ''e'', Lit CHR ''m'', Lit CHR '':''], None)],
      fallback = Some FileLoader\<rparr>"

text \<open>A registry with one pattern (\<open>^mem:\<close>) and no fallback.\<close>

definition in_memory_only :: Loader where
  "in_memory_only =
     \<lparr>types = [(Seq [BeginText, Lit CHR ''m'', Lit CHR ''e'', Lit CHR ''m'', Lit CHR '':''],
                 Some (OtherLoader 0))],
      fallback = None\<rparr>"

text \<open>
  A world in which an S3 object is a stream whose \<open>Close\<close> fails, a local file is a
  stream whose \<open>Close\<close> succeeds (\<open>missing.json\<close> cannot be opened, \<open>broken.yaml\<close> fails
  while it is read), and any other provider returns a reader that has no \<open>Close\<close>.
  Every stream holds two JSON values, but for \<open>long.json\<close>, which holds one value and
  then 600 spaces.
\<close>

definition example_world :: World where
  "example_world rg filename =
     (case rg of
        S3Loader \<Rightarrow>
          Inr \<lparr>stream = \<lparr>pending = ''[1] [2]'', fault = None\<rparr>,
               closer = Some (Some (CollaboratorError ''close failed'')), closes = 0\<rparr>
      | FileLoader \<Rightarrow>
          if filename = ''missing.json''
          then Inl (CollaboratorError ''open missing.json: no such file or directory'')
          else Inr \<lparr>stream = \<lparr>pending = (if filename = ''long.json''
                                           then ''[1]'' @ replicate 600 CHR '' ''
                                           else ''[1] [2]''),
                                fault = (if filename = ''broken.yaml''
                                         then Some (CollaboratorError ''read failed'') else None)\<rparr>,
                    closer = Some None, closes = 0\<rparr>
      | OtherLoader n \<Rightarrow>
          Inr \<lparr>stream = \<lparr>pending = ''[1] [2]'', fault = None\<rparr>, closer = None, closes = 0\<rparr>)"

text \<open>
  Decoders into a target that holds text, for the streams of this world. A
  \<open>json.Decoder\<close> fills its buffer with a read of 512 bytes and decodes the next value,
  which here is complete in the first buffer (the three bytes of \<open>[1]\<close>): \<open>Decode\<close>
  reads the next JSON-encoded value from its input, not the input to its end. An
  \<open>xml.Decoder\<close> reads through a buffer of 4096 bytes; none of the streams starts an XML
  element, so it fails in the first buffer. What is behind the buffer stays in the
  stream. The YAML decoder stores the bytes it is given.
\<close>

definition example_decoders :: "string Decoders" where
  "example_decoders =
     \<lparr>json_Decode = (\<lambda>s into. ((None, take 3 (pending s)), s\<lparr>pending := drop 512 (pending s)\<rparr>)),
      xml_Decode = (\<lambda>s into. ((Some (CollaboratorError ''XML syntax error''), into),
                                s\<lparr>pending := drop 4096 (pending s)\<rparr>)),
      yaml_Unmarshal = (\<lambda>b into. (None, b))\<rparr>"

section \<open>The split of a filename\<close>

lemma Split_not_Nil: "Split s sep \<noteq> []"
  by (induction s) (auto split: list.splits)

lemma Split_no_separator: "sep \<notin> set s \<Longrightarrow> Split s sep = [s]"
  by (induction s) auto

lemma Split_separator: "sep \<in> set s \<Longrightarrow> tl (Split s sep) \<noteq> []"
  using Split_not_Nil by (induction s) (auto split: list.splits)

lemma last_Split: "last (Split s sep) = rev (takeWhile (\<lambda>x. x \<noteq> sep) (rev s))"
proof (induction s)
  case Nil
  show ?case by simp
next
  case (Cons x xs)
  show ?case
  proof (cases "sep \<in> set xs")
    case True
    then have ex: "\<exists>y \<in> set (rev xs). \<not> y \<noteq> sep" by simp
    have tw: "takeWhile (\<lambda>x. x \<noteq> sep) (rev xs @ [x]) = takeWhile (\<lambda>x. x \<noteq> sep) (rev xs)"
      using ex by (simp add: takeWhile_append1)
    from True obtain p q ps where sp: "Split xs sep = p # q # ps"
      using Split_separator [OF True] Split_not_Nil [of xs sep]
      by (cases "Split xs sep"; cases "tl (Split xs sep)") auto
    have "last (Split (x # xs) sep) = last (Split xs sep)"
      using sp by simp
    with tw Cons.IH show ?thesis by simp
  next
    case False
    then have sp: "Split xs sep = [xs]" by (rule Split_no_separator)
    have all: "\<forall>y \<in> set (rev xs). y \<noteq> sep" using False by auto
    show ?thesis
    proof (cases "x = sep")
      case True
      have tw: "takeWhile (\<lambda>x. x \<noteq> sep) (rev xs @ [sep]) = rev xs"
        using all by (subst takeWhile_append2) auto
      show ?thesis using sp True by (simp add: tw)
    next
      case False
      have tw: "takeWhile (\<lambda>x. x \<noteq> sep) (rev xs @ [x]) = rev xs @ [x]"
        using all False by (subst takeWhile_append2) auto
      show ?thesis using sp False by (simp add: tw)
    qed
  qed
qed

text \<open>
  The index expression of \<open>Load\<close> never panics, and the extension is the text after the
  last \<open>.\<close> (the whole filename when it has none).
\<close>

lemma fileExtension_after_last_separator:
  "fileExtension filename = Inr (after_last_separator filename)"
proof -
  let ?parts = "Split filename CHR ''.''"
  have ne: "?parts \<noteq> []" by (rule Split_not_Nil)
  then have "0 < length ?parts" by simp
  then have "fileExtension filename = Inr (?parts ! (length ?parts - 1))"
    by (simp add: fileExtension_def Let_def nat_diff_distrib')
  also have "?parts ! (length ?parts - 1) = last ?parts"
    using ne by (simp add: last_conv_nth)
  finally show ?thesis
    by (simp add: last_Split after_last_separator_def)
qed

section \<open>What the pattern of the S3 filenames matches\<close>

lemma advance_byte_Nil: "advance_byte ok (p, []) = []"
  by (simp add: advance_byte_def)

lemma advance_byte_Cons:
  "advance_byte ok (p, x # xs) = (if ok x then [(p + 1, xs)] else [])"
  by (simp add: advance_byte_def)

lemma advance_AnyCharNotNL_fun: "advance AnyCharNotNL = advance_byte (\<lambda>x. x \<noteq> CHR 0x0A)"
  by (rule ext) simp

lemma advance_NotChars_fun: "advance (NotChars cs) = advance_byte (\<lambda>x. x \<notin> set cs)"
  by (rule ext) simp

text \<open>
  A repeated single byte: the match can end after any number of leading bytes that are
  all accepted.
\<close>

lemma star_iter_byte:
  "set (star_iter (advance_byte ok) (p, s)) =
     {(p + k, drop k s) |k. k \<le> length (takeWhile ok s)}"
proof (induction s arbitrary: p)
  case Nil
  show ?case
    by (subst star_iter.simps) (simp add: advance_byte_Nil)
next
  case (Cons x xs)
  show ?case
  proof (cases "ok x")
    case False
    then show ?thesis
      by (subst star_iter.simps) (simp add: advance_byte_Cons)
  next
    case True
    have "set (star_iter (advance_byte ok) (p, x # xs)) =
            insert (p, x # xs) (set (star_iter (advance_byte ok) (p + 1, xs)))"
      using True by (subst star_iter.simps) (simp add: advance_byte_Cons)
    also have "\<dots> = insert (p, x # xs) {(p + 1 + k, drop k xs) |k. k \<le> length (takeWhile ok xs)}"
      by (simp only: Cons.IH)
    also have "\<dots> = {(p + k, drop k (x # xs)) |k. k \<le> length (takeWhile ok (x # xs))}"
    proof (intro set_eqI iffI)
      fix c
      assume "c \<in> insert (p, x # xs) {(p + 1 + k, drop k xs) |k. k \<le> length (takeWhile ok xs)}"
      then consider "c = (p, x # xs)"
        | k where "c = (p + 1 + k, drop k xs)" "k \<le> length (takeWhile ok xs)"
        by auto
      then show "c \<in> {(p + k, drop k (x # xs)) |k. k \<le> length (takeWhile ok (x # xs))}"
      proof cases
        case 1
        then have "c = (p + 0, drop 0 (x # xs))" by simp
        then show ?thesis by blast
      next
        case 2
        then have "c = (p + Suc k, drop (Suc k) (x # xs))" "Suc k \<le> length (takeWhile ok (x # xs))"
          using True by simp_all
        then show ?thesis by blast
      qed
    next
      fix c
      assume "c \<in> {(p + k, drop k (x # xs)) |k. k \<le> length (takeWhile ok (x # xs))}"
      then obtain k where k: "c = (p + k, drop k (x # xs))" "k \<le> length (takeWhile ok (x # xs))"
        by auto
      show "c \<in> insert (p, x # xs) {(p + 1 + k, drop k xs) |k. k \<le> length (takeWhile ok xs)}"
      proof (cases k)
        case 0
        with k show ?thesis by simp
      next
        case (Suc j)
        with k True have "c = (p + 1 + j, drop j xs)" "j \<le> length (takeWhile ok xs)"
          by simp_all
        then show ?thesis by blast
      qed
    qed
    finally show ?thesis .
  qed
qed

lemma advance_Plus_byte:
  "set (concat (map (star_iter (advance_byte ok)) (advance_byte ok (p, s)))) =
     {(p + k, drop k s) |k. 1 \<le> k \<and> k \<le> length (takeWhile ok s)}"
proof (cases s)
  case Nil
  then show ?thesis by (simp add: advance_byte_Nil)
next
  case (Cons x xs)
  show ?thesis
  proof (cases "ok x")
    case False
    with Cons show ?thesis by (simp add: advance_byte_Cons)
  next
    case True
    have "set (concat (map (star_iter (advance_byte ok)) (advance_byte ok (p, s)))) =
            {(p + 1 + k, drop k xs) |k. k \<le> length (takeWhile ok xs)}"
      using Cons True by (simp add: advance_byte_Cons star_iter_byte)
    also have "\<dots> = {(p + k, drop k s) |k. 1 \<le> k \<and> k \<le> length (takeWhile ok s)}"
    proof (intro set_eqI iffI)
      fix c
      assume "c \<in> {(p + 1 + k, drop k xs) |k. k \<le> length (takeWhile ok xs)}"
      then obtain k where "c = (p + 1 + k, drop k xs)" "k \<le> length (takeWhile ok xs)"
        by auto
      then have "c = (p + Suc k, drop (Suc k) s)" "1 \<le> Suc k" "Suc k \<le> length (takeWhile ok s)"
        using Cons True by simp_all
      then show "c \<in> {(p + k, drop k s) |k. 1 \<le> k \<and> k \<le> length (takeWhile ok s)}"
        by blast
    next
      fix c
      assume "c \<in> {(p + k, drop k s) |k. 1 \<le> k \<and> k \<le> length (takeWhile ok s)}"
      then obtain k where k: "c = (p + k, drop k s)" "1 \<le> k" "k \<le> length (takeWhile ok s)"
        by auto
      then obtain j where "k = Suc j" by (cases k) auto
      with k Cons True have "c = (p + 1 + j, drop j xs)" "j \<le> length (takeWhile ok xs)"
        by simp_all
      then show "c \<in> {(p + 1 + k, drop k xs) |k. k \<le> length (takeWhile ok xs)}"
        by blast
    qed
    finally show ?thesis .
  qed
qed

lemma advance_Lit_then:
  "advance (Cat (Lit c) r) (p, s) \<noteq> [] \<longleftrightarrow> (\<exists>t. s = c # t \<and> advance r (p + 1, t) \<noteq> [])"
  by (cases s) (auto simp: advance_byte_Nil advance_byte_Cons)

lemma advance_literal_prefix:
  "advance (foldr (\<lambda>c. Cat (Lit c)) w r) (p, s) \<noteq> [] \<longleftrightarrow>
     (\<exists>t. s = w @ t \<and> advance r (p + length w, t) \<noteq> [])"
proof (induction w arbitrary: p s)
  case Nil
  show ?case by simp
next
  case (Cons c w)
  have "advance (foldr (\<lambda>c. Cat (Lit c)) (c # w) r) (p, s) \<noteq> [] \<longleftrightarrow>
          (\<exists>t. s = c # t \<and> advance (foldr (\<lambda>c. Cat (Lit c)) w r) (p + 1, t) \<noteq> [])"
    using advance_Lit_then [of c "foldr (\<lambda>c. Cat (Lit c)) w r" p s] by simp
  also have "\<dots> \<longleftrightarrow> (\<exists>t. s = c # t \<and> (\<exists>t'. t = w @ t' \<and> advance r (p + 1 + length w, t') \<noteq> []))"
    by (simp only: Cons.IH)
  also have "\<dots> \<longleftrightarrow> (\<exists>t'. s = (c # w) @ t' \<and> advance r (p + length (c # w), t') \<noteq> [])"
    by auto
  finally show ?case .
qed

text \<open>A pattern that starts with \<open>^\<close> can only match from the start of the text.\<close>

lemma MatchString_BeginText:
  "MatchString (Cat BeginText r) s \<longleftrightarrow> advance r (0, s) \<noteq> []"
proof
  assume "MatchString (Cat BeginText r) s"
  then obtain i where "advance (Cat BeginText r) (i, drop i s) \<noteq> []"
    by (auto simp: MatchString_def list_ex_iff)
  then show "advance r (0, s) \<noteq> []"
    by (cases "i = 0") simp_all
next
  assume "advance r (0, s) \<noteq> []"
  then have "advance (Cat BeginText r) (0, drop 0 s) \<noteq> []" by simp
  moreover have "0 \<in> set [0..<length s + 1]" by simp
  ultimately show "MatchString (Cat BeginText r) s"
    unfolding MatchString_def list_ex_iff by blast
qed

lemma advance_Plus_NotChars_then:
  "advance (Cat (Cap (Plus (NotChars cs))) r) (p, s) \<noteq> [] \<longleftrightarrow>
     (\<exists>k. 1 \<le> k \<and> k \<le> length (takeWhile (\<lambda>x. x \<notin> set cs) s) \<and> advance r (p + k, drop k s) \<noteq> [])"
proof -
  have "advance (Cat (Cap (Plus (NotChars cs))) r) (p, s) \<noteq> [] \<longleftrightarrow>
          (\<exists>c \<in> set (concat (map (star_iter (advance_byte (\<lambda>x. x \<notin> set cs)))
                                   (advance_byte (\<lambda>x. x \<notin> set cs) (p, s)))). advance r c \<noteq> [])"
    by (simp add: advance_NotChars_fun)
  also have "\<dots> \<longleftrightarrow> (\<exists>c \<in> {(p + k, drop k s) |k. 1 \<le> k \<and> k \<le> length (takeWhile (\<lambda>x. x \<notin> set cs) s)}.
                         advance r c \<noteq> [])"
    by (simp only: advance_Plus_byte)
  also have "\<dots> \<longleftrightarrow> (\<exists>k. 1 \<le> k \<and> k \<le> length (takeWhile (\<lambda>x. x \<notin> set cs) s)
                         \<and> advance r (p + k, drop k s) \<noteq> [])"
    by blast
  finally show ?thesis .
qed

lemma advance_rest_to_end:
  "advance (Cat (Cap (Star AnyCharNotNL)) (Cat EndText EmptyMatch)) (p, s) \<noteq> []
     \<longleftrightarrow> CHR 0x0A \<notin> set s"
proof -
  let ?ok = "\<lambda>x. x \<noteq> CHR 0x0A"
  have "advance (Cat (Cap (Star AnyCharNotNL)) (Cat EndText EmptyMatch)) (p, s) \<noteq> []
          \<longleftrightarrow> (\<exists>c \<in> set (star_iter (advance_byte ?ok) (p, s)). snd c = [])"
    by (auto simp: advance_AnyCharNotNL_fun)
  also have "\<dots> \<longleftrightarrow> (\<exists>k. k \<le> length (takeWhile ?ok s) \<and> drop k s = [])"
    by (auto simp: star_iter_byte)
  also have "\<dots> \<longleftrightarrow> length s \<le> length (takeWhile ?ok s)"
    by auto
  also have "\<dots> \<longleftrightarrow> takeWhile ?ok s = s"
    by (metis length_takeWhile_le order_antisym takeWhile_eq_take take_all order_refl)
  also have "\<dots> \<longleftrightarrow> CHR 0x0A \<notin> set s"
    by (auto simp: takeWhile_eq_all_conv)
  finally show ?thesis .
qed

lemma reS3Filename_unfold:
  "reS3Filename =
     Cat BeginText (foldr (\<lambda>c. Cat (Lit c)) ''s3://''
       (Cat (Cap (Plus (NotChars ''/''))) (Cat (Lit CHR ''/'')
          (Cat (Cap (Star AnyCharNotNL)) (Cat EndText EmptyMatch)))))"
  by (simp add: reS3Filename_def Seq_def)

lemma reS3Filename_steps:
  "MatchString reS3Filename s \<longleftrightarrow>
     (\<exists>t. s = ''s3://'' @ t \<and>
        (\<exists>k. 1 \<le> k \<and> k \<le> length (takeWhile (\<lambda>x. x \<notin> set ''/'') t) \<and>
           (\<exists>u. drop k t = CHR ''/'' # u \<and> CHR 0x0A \<notin> set u)))"
  by (simp only: reS3Filename_unfold MatchString_BeginText advance_literal_prefix
        advance_Plus_NotChars_then advance_Lit_then advance_rest_to_end)

lemma take_within_takeWhile:
  "k \<le> length (takeWhile ok t) \<Longrightarrow> x \<in> set (take k t) \<Longrightarrow> ok x"
proof (induction t arbitrary: k)
  case Nil
  then show ?case by simp
next
  case (Cons y ys)
  show ?case
  proof (cases k)
    case 0
    with Cons.prems show ?thesis by simp
  next
    case (Suc j)
    with Cons.prems have oky: "ok y" by (auto split: if_splits)
    with Cons.prems Suc have "j \<le> length (takeWhile ok ys)" "x = y \<or> x \<in> set (take j ys)"
      by auto
    with Cons.IH oky show ?thesis by blast
  qed
qed

text \<open>
  The pattern matches exactly the filenames \<open>s3://bucket/key\<close> whose bucket is not
  empty and has no \<open>/\<close>, and whose key has no line feed.
\<close>

lemma reS3Filename_MatchString_iff:
  "MatchString reS3Filename s \<longleftrightarrow>
     (\<exists>bucket key. s = ''s3://'' @ bucket @ ''/'' @ key
        \<and> bucket \<noteq> [] \<and> CHR ''/'' \<notin> set bucket \<and> CHR 0x0A \<notin> set key)"
proof
  assume "MatchString reS3Filename s"
  then obtain t k u where
    s: "s = ''s3://'' @ t" and k: "1 \<le> k" "k \<le> length (takeWhile (\<lambda>x. x \<notin> set ''/'') t)"
    and u: "drop k t = CHR ''/'' # u" "CHR 0x0A \<notin> set u"
    unfolding reS3Filename_steps by blast
  have "t = take k t @ drop k t" by simp
  then have t: "t = take k t @ ''/'' @ u"
    using u(1) by simp
  have "CHR ''/'' \<notin> set (take k t)"
    using take_within_takeWhile [OF k(2), of "CHR ''/''"] by auto
  moreover have "take k t \<noteq> []"
  proof
    assume "take k t = []"
    then have "k = 0 \<or> t = []" by simp
    with k show False by auto
  qed
  ultimately have "s = ''s3://'' @ take k t @ ''/'' @ u \<and> take k t \<noteq> []
      \<and> CHR ''/'' \<notin> set (take k t) \<and> CHR 0x0A \<notin> set u"
    using s t u(2) by simp
  then show "\<exists>bucket key. s = ''s3://'' @ bucket @ ''/'' @ key
        \<and> bucket \<noteq> [] \<and> CHR ''/'' \<notin> set bucket \<and> CHR 0x0A \<notin> set key"
    by blast
next
  assume "\<exists>bucket key. s = ''s3://'' @ bucket @ ''/'' @ key
        \<and> bucket \<noteq> [] \<and> CHR ''/'' \<notin> set bucket \<and> CHR 0x0A \<notin> set key"
  then obtain bucket key where
    s: "s = ''s3://'' @ (bucket @ ''/'' @ key)" and b: "bucket \<noteq> []" "CHR ''/'' \<notin> set bucket"
    and key: "CHR 0x0A \<notin> set key"
    by auto
  have tw: "takeWhile (\<lambda>x. x \<notin> set ''/'') (bucket @ ''/'' @ key) = bucket"
    using b(2) by (induction bucket) auto
  have "1 \<le> length bucket" using b(1) by (cases bucket) auto
  moreover have "length bucket \<le> length (takeWhile (\<lambda>x. x \<notin> set ''/'') (bucket @ ''/'' @ key))"
    by (simp only: tw)
  moreover have "drop (length bucket) (bucket @ ''/'' @ key) = CHR ''/'' # key"
    by simp
  ultimately show "MatchString reS3Filename s"
    unfolding reS3Filename_steps using s key by blast
qed

section \<open>The loop over the registry\<close>

lemma range_types_None_iff:
  "range_types es filename = None \<longleftrightarrow> (\<forall>e \<in> set es. \<not> MatchString (fst e) filename)"
  by (induction es filename rule: range_types.induct) auto

lemma range_types_SomeD:
  "range_types es filename = Some g \<Longrightarrow> \<exists>e \<in> set es. MatchString (fst e) filename \<and> snd e = g"
  by (induction es filename rule: range_types.induct) (auto split: if_splits)

text \<open>Whatever the order, the loop visits the entries of the map and no others.\<close>

lemma visited_entries:
  assumes "iteration_order l ord"
  shows "set (map (\<lambda>i. types l ! i) ord) = set (types l)"
proof -
  from assms have "set ord = {0..<length (types l)}"
    by (simp add: iteration_order_def)
  then have "(\<lambda>i. types l ! i) ` set ord = set (types l)"
    by (auto simp: set_conv_nth)
  then show ?thesis by simp
qed

lemma getReaderGetter_no_match:
  assumes "iteration_order l ord"
    and "\<forall>i < length (types l). \<not> MatchString (fst (types l ! i)) filename"
  shows "getReaderGetter l ord filename = fallback l"
proof -
  have "\<forall>e \<in> set (types l). \<not> MatchString (fst e) filename"
    using assms(2) by (metis in_set_conv_nth)
  then have "range_types (map (\<lambda>i. types l ! i) ord) filename = None"
    using visited_entries [OF assms(1)] range_types_None_iff by blast
  then show ?thesis by (simp add: getReaderGetter_def)
qed

lemma getReaderGetter_match:
  assumes "iteration_order l ord"
    and "i < length (types l)" and "MatchString (fst (types l ! i)) filename"
  shows "\<exists>j < length (types l). MatchString (fst (types l ! j)) filename
           \<and> range_types (map (\<lambda>i. types l ! i) ord) filename = Some (snd (types l ! j))"
proof -
  have "types l ! i \<in> set (map (\<lambda>i. types l ! i) ord)"
    using visited_entries [OF assms(1)] assms(2) by simp
  then have "range_types (map (\<lambda>i. types l ! i) ord) filename \<noteq> None"
    using assms(3) range_types_None_iff by blast
  then obtain g where g: "range_types (map (\<lambda>i. types l ! i) ord) filename = Some g"
    by auto
  from range_types_SomeD [OF g] obtain e where
    "e \<in> set (map (\<lambda>i. types l ! i) ord)" and e': "MatchString (fst e) filename" "snd e = g"
    by blast
  then have e: "e \<in> set (types l)"
    using visited_entries [OF assms(1)] by simp
  from e(1) obtain j where "j < length (types l)" "types l ! j = e"
    by (auto simp: in_set_conv_nth)
  with e' g show ?thesis by auto
qed

lemma range_types_find:
  "find (\<lambda>k. MatchString (fst (es ! k)) filename) ord = Some k \<Longrightarrow>
     range_types (map (\<lambda>i. es ! i) ord) filename = Some (snd (es ! k))"
proof (induction ord)
  case Nil
  then show ?case by simp
next
  case (Cons i ord)
  obtain re g where e: "es ! i = (re, g)" by (cases "es ! i")
  show ?case
  proof (cases "MatchString re filename")
    case True
    with Cons.prems e show ?thesis by auto
  next
    case False
    with Cons e show ?thesis by auto
  qed
qed

lemma iteration_order_starting_at:
  assumes "j < length (types l)"
  shows "iteration_order l (j # remove1 j [0..<length (types l)])"
  using assms by (auto simp: iteration_order_def)

section \<open>Resolution\<close>

text \<open>
  C1, as the code has it. The registry is a Go map, which keeps no registration order:
  the loop of \<open>getReaderGetter\<close> returns the value bound to the first pattern that
  matches in the order in which \<open>range\<close> visits the map, and Go does not specify that
  order. So when two or more registered patterns match the identifier, each of their
  bindings is selected under some iteration order, whichever was registered first.
\<close>

theorem C1_first_match_in_iteration_order:
  assumes "iteration_order l ord"
    and "find (\<lambda>k. MatchString (fst (types l ! k)) filename) ord = Some k"
  shows "getReaderGetter l ord filename = snd (types l ! k) \<and>
         (\<forall>j < length (types l). MatchString (fst (types l ! j)) filename \<longrightarrow>
            (\<exists>ord'. iteration_order l ord' \<and> getReaderGetter l ord' filename = snd (types l ! j)))"
proof
  show "getReaderGetter l ord filename = snd (types l ! k)"
    using range_types_find [OF assms(2)] by (simp add: getReaderGetter_def)
next
  show "\<forall>j < length (types l). MatchString (fst (types l ! j)) filename \<longrightarrow>
          (\<exists>ord'. iteration_order l ord' \<and> getReaderGetter l ord' filename = snd (types l ! j))"
  proof (intro allI impI)
    fix j
    assume j: "j < length (types l)" and m: "MatchString (fst (types l ! j)) filename"
    let ?ord = "j # remove1 j [0..<length (types l)]"
    have "find (\<lambda>k. MatchString (fst (types l ! k)) filename) ?ord = Some j"
      using m by simp
    then have "range_types (map (\<lambda>i. types l ! i) ?ord) filename = Some (snd (types l ! j))"
      by (rule range_types_find)
    then have "getReaderGetter l ?ord filename = snd (types l ! j)"
      by (simp only: getReaderGetter_def option.case)
    with iteration_order_starting_at [OF j]
    show "\<exists>ord'. iteration_order l ord' \<and> getReaderGetter l ord' filename = snd (types l ! j)"
      by blast
  qed
qed

theorem C1_first_match_in_iteration_order_witness:
  "iteration_order overlapping [0, 1] \<and>
   getReaderGetter overlapping [0, 1] ''s3://bucket1/key1'' = Some S3Loader \<and>
   (\<exists>ord'. iteration_order overlapping ord' \<and>
            getReaderGetter overlapping ord' ''s3://bucket1/key1'' = Some FileLoader)"
proof -
  have ord: "iteration_order overlapping [0, 1]" by code_simp
  have first: "find (\<lambda>k. MatchString (fst (types overlapping ! k)) ''s3://bucket1/key1'') [0, 1] = Some 0"
    by code_simp
  have other: "1 < length (types overlapping)"
    "MatchString (fst (types overlapping ! 1)) ''s3://bucket1/key1''"
    by code_simp+
  have vals: "snd (types overlapping ! 0) = Some S3Loader" "snd (types overlapping ! 1) = Some FileLoader"
    by code_simp+
  from C1_first_match_in_iteration_order [OF ord first] other vals ord
  show ?thesis by metis
qed

text \<open>
  C1 as the specification states it fails: both patterns of the registry match the
  identifier, \<open>S3Loader\<close> was registered first, and the loop that visits the second entry
  first returns \<open>FileLoader\<close>.
\<close>

theorem C1_registration_order_counterexample:
  "MatchString reS3Filename ''s3://bucket1/key1'' \<and>
   MatchString (Star AnyCharNotNL) ''s3://bucket1/key1'' \<and>
   iteration_order overlapping [1, 0] \<and>
   first_registered_match overlapping ''s3://bucket1/key1'' = Some (Some S3Loader) \<and>
   getReaderGetter overlapping [1, 0] ''s3://bucket1/key1'' = Some FileLoader"
  by code_simp

text \<open>
  C2, as the code has it. Resolution is a function of the registry, the identifier and
  the order in which \<open>range\<close> visits the map. Two calls of \<open>GetReader\<close> pick the same
  provider, whatever the two iteration orders are, when all the patterns that match the
  identifier are bound to the same value: in particular when at most one registered
  pattern matches, as in the default configuration with its single pattern.
\<close>

theorem C2_same_provider_when_bindings_agree:
  assumes "iteration_order l ord1" and "iteration_order l ord2"
    and "\<forall>i < length (types l). \<forall>j < length (types l).
           MatchString (fst (types l ! i)) filename \<longrightarrow> MatchString (fst (types l ! j)) filename
             \<longrightarrow> snd (types l ! i) = snd (types l ! j)"
  shows "getReaderGetter l ord1 filename = getReaderGetter l ord2 filename \<and>
         GetReader l ord1 w filename = GetReader l ord2 w filename"
proof -
  have "getReaderGetter l ord1 filename = getReaderGetter l ord2 filename"
  proof (cases "\<exists>i < length (types l). MatchString (fst (types l ! i)) filename")
    case True
    then obtain i where i: "i < length (types l)" "MatchString (fst (types l ! i)) filename"
      by blast
    from getReaderGetter_match [OF assms(1) i] obtain j1 where
      j1: "j1 < length (types l)" "MatchString (fst (types l ! j1)) filename"
        "range_types (map (\<lambda>i. types l ! i) ord1) filename = Some (snd (types l ! j1))"
      by blast
    from getReaderGetter_match [OF assms(2) i] obtain j2 where
      j2: "j2 < length (types l)" "MatchString (fst (types l ! j2)) filename"
        "range_types (map (\<lambda>i. types l ! i) ord2) filename = Some (snd (types l ! j2))"
      by blast
    have "snd (types l ! j1) = snd (types l ! j2)"
      using assms(3) j1(1,2) j2(1,2) by blast
    with j1(3) j2(3) show ?thesis by (simp add: getReaderGetter_def)
  next
    case False
    then have none: "\<forall>i < length (types l). \<not> MatchString (fst (types l ! i)) filename"
      by blast
    show ?thesis
      using getReaderGetter_no_match [OF assms(1) none] getReaderGetter_no_match [OF assms(2) none]
      by simp
  qed
  then show ?thesis by (simp add: GetReader_def)
qed

theorem C2_same_provider_when_bindings_agree_witness:
  "iteration_order s3_and_memory [0, 1] \<and> iteration_order s3_and_memory [1, 0] \<and>
   getReaderGetter s3_and_memory [0, 1] ''s3://bucket1/key1'' = Some S3Loader \<and>
   getReaderGetter s3_and_memory [1, 0] ''s3://bucket1/key1'' = Some S3Loader \<and>
   GetReader s3_and_memory [0, 1] example_world ''s3://bucket1/key1'' =
     GetReader s3_and_memory [1, 0] example_world ''s3://bucket1/key1''"
proof -
  have o1: "iteration_order s3_and_memory [0, 1]" and o2: "iteration_order s3_and_memory [1, 0]"
    by code_simp+
  have m: "\<not> MatchString (fst (types s3_and_memory ! 1)) ''s3://bucket1/key1''"
    by code_simp
  have len: "length (types s3_and_memory) = 2"
    by (simp add: s3_and_memory_def)
  have agree: "\<forall>i < length (types s3_and_memory). \<forall>j < length (types s3_and_memory).
           MatchString (fst (types s3_and_memory ! i)) ''s3://bucket1/key1''
             \<longrightarrow> MatchString (fst (types s3_and_memory ! j)) ''s3://bucket1/key1''
             \<longrightarrow> snd (types s3_and_memory ! i) = snd (types s3_and_memory ! j)"
    unfolding len using m by (auto simp: less_Suc_eq numeral_2_eq_2)
  have v: "getReaderGetter s3_and_memory [0, 1] ''s3://bucket1/key1'' = Some S3Loader"
    by code_simp
  from C2_same_provider_when_bindings_agree [OF o1 o2 agree, of example_world] o1 o2 v
  show ?thesis by simp
qed

text \<open>
  C2 as the specification states it fails: with the same registry and the same
  identifier, one iteration order invokes \<open>S3Loader\<close> and the other \<open>FileLoader\<close>.
\<close>

theorem C2_iteration_order_counterexample:
  "iteration_order overlapping [0, 1] \<and> iteration_order overlapping [1, 0] \<and>
   GetReader overlapping [0, 1] example_world ''s3://bucket1/key1'' =
     example_world S3Loader ''s3://bucket1/key1'' \<and>
   GetReader overlapping [1, 0] example_world ''s3://bucket1/key1'' =
     example_world FileLoader ''s3://bucket1/key1'' \<and>
   getReaderGetter overlapping [0, 1] ''s3://bucket1/key1''
     \<noteq> getReaderGetter overlapping [1, 0] ''s3://bucket1/key1''"
  by code_simp

text \<open>
  C6. When no registered pattern matches the identifier, \<open>GetReader\<close> returns
  \<open>ErrorNoReader\<close> if the fallback is \<open>nil\<close>, and otherwise what the fallback's
  \<open>GetReader\<close> returns for the identifier as it was given. The \<open>nil\<close> fallback is
  checked before it is used, so this path has no panic.
\<close>

theorem C6_no_match_uses_fallback:
  assumes "iteration_order l ord"
    and "\<forall>i < length (types l). \<not> MatchString (fst (types l ! i)) filename"
  shows "GetReader l ord w filename =
           (case fallback l of
              None \<Rightarrow> Inl ErrorNoReader
            | Some fb \<Rightarrow> TypeLoader_GetReader w fb filename)"
  using getReaderGetter_no_match [OF assms] by (simp add: GetReader_def)

theorem C6_no_match_uses_fallback_witness:
  "iteration_order in_memory_only [0] \<and>
   \<not> MatchString (fst (types in_memory_only ! 0)) ''cfg.json'' \<and>
   fallback in_memory_only = None \<and>
   GetReader in_memory_only [0] example_world ''cfg.json'' = Inl ErrorNoReader \<and>
   iteration_order DefaultLoader [0] \<and>
   \<not> MatchString (fst (types DefaultLoader ! 0)) ''cfg.json'' \<and>
   fallback DefaultLoader = Some FileLoader \<and>
   GetReader DefaultLoader [0] example_world ''cfg.json'' =
     TypeLoader_GetReader example_world FileLoader ''cfg.json''"
proof -
  have o1: "iteration_order in_memory_only [0]" and o2: "iteration_order DefaultLoader [0]"
    by code_simp+
  have m1: "\<not> MatchString (fst (types in_memory_only ! 0)) ''cfg.json''"
    and m2: "\<not> MatchString (fst (types DefaultLoader ! 0)) ''cfg.json''"
    by code_simp+
  have n1: "\<forall>i < length (types in_memory_only). \<not> MatchString (fst (types in_memory_only ! i)) ''cfg.json''"
    using m1 by (simp add: in_memory_only_def)
  have n2: "\<forall>i < length (types DefaultLoader). \<not> MatchString (fst (types DefaultLoader ! i)) ''cfg.json''"
    using m2 by (simp add: DefaultLoader_def)
  have f1: "fallback in_memory_only = None" and f2: "fallback DefaultLoader = Some FileLoader"
    by (simp_all add: in_memory_only_def DefaultLoader_def)
  from C6_no_match_uses_fallback [OF o1 n1, of example_world]
       C6_no_match_uses_fallback [OF o2 n2, of example_world] o1 o2 m1 m2 f1 f2
  show ?thesis by simp
qed

lemma iteration_order_fallback [simp]:
  "iteration_order (l\<lparr>fallback := fb\<rparr>) ord = iteration_order l ord"
  by (simp add: iteration_order_def)

text \<open>
  C7, as the code has it. When a registered pattern matches the identifier, resolution
  takes the value bound to a matching pattern, whatever the fallback is: a provider bound
  there is invoked with the identifier, and a \<open>nil\<close> bound there gives \<open>ErrorNoReader\<close>.
  In the default configuration an identifier \<open>s3://bucket/key\<close> is routed to \<open>S3Loader\<close>
  when the bucket is not empty and has no \<open>/\<close> and the key has no line feed.
\<close>

theorem C7_matching_pattern_never_falls_back:
  "(iteration_order l ord \<and> i < length (types l) \<and> MatchString (fst (types l ! i)) filename \<longrightarrow>
      (\<exists>j < length (types l). MatchString (fst (types l ! j)) filename \<and>
          getReaderGetter l ord filename = snd (types l ! j) \<and>
          GetReader l ord w filename =
            (case snd (types l ! j) of
               None \<Rightarrow> Inl ErrorNoReader
             | Some rg \<Rightarrow> TypeLoader_GetReader w rg filename)) \<and>
      getReaderGetter (l\<lparr>fallback := fb\<rparr>) ord filename = getReaderGetter l ord filename \<and>
      GetReader (l\<lparr>fallback := fb\<rparr>) ord w filename = GetReader l ord w filename) \<and>
   (iteration_order DefaultLoader ord' \<and>
    bucket \<noteq> [] \<and> CHR ''/'' \<notin> set bucket \<and> CHR 0x0A \<notin> set key \<longrightarrow>
      getReaderGetter DefaultLoader ord' (''s3://'' @ bucket @ ''/'' @ key) = Some S3Loader \<and>
      GetReader DefaultLoader ord' w (''s3://'' @ bucket @ ''/'' @ key) =
        w S3Loader (''s3://'' @ bucket @ ''/'' @ key))"
proof (intro conjI impI)
  assume a: "iteration_order l ord \<and> i < length (types l) \<and> MatchString (fst (types l ! i)) filename"
  then have o: "iteration_order l ord" and i: "i < length (types l)"
    and m: "MatchString (fst (types l ! i)) filename"
    by simp_all
  from getReaderGetter_match [OF o i m] obtain j where
    j: "j < length (types l)" "MatchString (fst (types l ! j)) filename"
      "range_types (map (\<lambda>i. types l ! i) ord) filename = Some (snd (types l ! j))"
    by blast
  then have g: "getReaderGetter l ord filename = snd (types l ! j)"
    by (simp add: getReaderGetter_def)
  then have "GetReader l ord w filename =
            (case snd (types l ! j) of
               None \<Rightarrow> Inl ErrorNoReader
             | Some rg \<Rightarrow> TypeLoader_GetReader w rg filename)"
    by (simp add: GetReader_def)
  with j g show "\<exists>j < length (types l). MatchString (fst (types l ! j)) filename \<and>
          getReaderGetter l ord filename = snd (types l ! j) \<and>
          GetReader l ord w filename =
            (case snd (types l ! j) of
               None \<Rightarrow> Inl ErrorNoReader
             | Some rg \<Rightarrow> TypeLoader_GetReader w rg filename)"
    by blast
  show fb: "getReaderGetter (l\<lparr>fallback := fb\<rparr>) ord filename = getReaderGetter l ord filename"
    using j(3) by (simp add: getReaderGetter_def)
  then show "GetReader (l\<lparr>fallback := fb\<rparr>) ord w filename = GetReader l ord w filename"
    by (simp add: GetReader_def)
next
  let ?f = "''s3://'' @ bucket @ ''/'' @ key"
  assume a: "iteration_order DefaultLoader ord' \<and>
    bucket \<noteq> [] \<and> CHR ''/'' \<notin> set bucket \<and> CHR 0x0A \<notin> set key"
  then have m0: "MatchString reS3Filename ?f"
    unfolding reS3Filename_MatchString_iff by blast
  then have m: "MatchString (fst (types DefaultLoader ! 0)) ?f"
    by (simp add: DefaultLoader_def)
  have len: "0 < length (types DefaultLoader)"
    by (simp add: DefaultLoader_def)
  from a have o: "iteration_order DefaultLoader ord'" by simp
  from getReaderGetter_match [OF o len m] obtain j where
    "j < length (types DefaultLoader)"
    "range_types (map (\<lambda>i. types DefaultLoader ! i) ord') ?f = Some (snd (types DefaultLoader ! j))"
    by blast
  then have "range_types (map (\<lambda>i. types DefaultLoader ! i) ord') ?f = Some (Some S3Loader)"
    by (simp add: DefaultLoader_def)
  then show g: "getReaderGetter DefaultLoader ord' ?f = Some S3Loader"
    by (simp add: getReaderGetter_def)
  then show "GetReader DefaultLoader ord' w ?f = w S3Loader ?f"
    using m0 by (simp add: GetReader_def TypeLoader_GetReader_def)
qed

theorem C7_matching_pattern_never_falls_back_witness:
  "iteration_order s3_and_memory [1, 0] \<and>
   MatchString (fst (types s3_and_memory ! 0)) ''s3://bucket1/key1'' \<and>
   getReaderGetter s3_and_memory [1, 0] ''s3://bucket1/key1'' = Some S3Loader \<and>
   GetReader (s3_and_memory\<lparr>fallback := None\<rparr>) [1, 0] example_world ''s3://bucket1/key1'' =
     GetReader s3_and_memory [1, 0] example_world ''s3://bucket1/key1'' \<and>
   iteration_order DefaultLoader [0] \<and>
   getReaderGetter DefaultLoader [0] ''s3://bucket1/key1'' = Some S3Loader \<and>
   GetReader DefaultLoader [0] example_world ''s3://bucket1/key1'' =
     example_world S3Loader ''s3://bucket1/key1''"
proof -
  have o1: "iteration_order s3_and_memory [1, 0]" and o2: "iteration_order DefaultLoader [0]"
    by code_simp+
  have i: "0 < length (types s3_and_memory)"
    and m: "MatchString (fst (types s3_and_memory ! 0)) ''s3://bucket1/key1''"
    by code_simp+
  have v: "getReaderGetter s3_and_memory [1, 0] ''s3://bucket1/key1'' = Some S3Loader"
    by code_simp
  have b: "''bucket1'' \<noteq> []" "CHR ''/'' \<notin> set ''bucket1''" "CHR 0x0A \<notin> set ''key1''"
    by simp_all
  from C7_matching_pattern_never_falls_back
         [of s3_and_memory "[1, 0]" 0 "''s3://bucket1/key1''" example_world None
             "[0]" "''bucket1''" "''key1''"]
       o1 o2 i m v b
  show ?thesis by simp
qed

text \<open>
  C7 as the specification states it fails twice. In the default configuration \<open>.\<close>
  does not match a line feed, so an identifier \<open>s3://bucket1/key\<close> whose key holds a
  line feed does not match the pattern and is handed to the fallback, \<open>FileLoader\<close>. And
  an identifier that matches a pattern bound to \<open>nil\<close> invokes no provider: the check
  \<open>rg == nil\<close> of \<open>GetReader\<close> returns \<open>ErrorNoReader\<close>, fallback or not.
\<close>

theorem C7_not_routed_to_provider_counterexample:
  "iteration_order DefaultLoader [0] \<and>
   getReaderGetter DefaultLoader [0] (''s3://bucket1/key'' @ [CHR 0x0A] @ ''1'') = Some FileLoader \<and>
   GetReader DefaultLoader [0] example_world (''s3://bucket1/key'' @ [CHR 0x0A] @ ''1'') =
     example_world FileLoader (''s3://bucket1/key'' @ [CHR 0x0A] @ ''1'') \<and>
   iteration_order bound_to_nil [0] \<and>
   MatchString (fst (types bound_to_nil ! 0)) ''mem:a.json'' \<and>
   snd (types bound_to_nil ! 0) = None \<and>
   GetReader bound_to_nil [0] example_world ''mem:a.json'' = Inl ErrorNoReader"
  by code_simp

section \<open>What Load does with the handle and the stream\<close>

lemma Load_acquired:
  assumes "GetReader l ord w filename = Inr r"
  shows "Load l ord w dec filename into =
           \<lparr>returned = fst (fst (Load_decode dec filename (stream r) into)),
            target = snd (fst (Load_decode dec filename (stream r) into)),
            handle = Some (case closer r of
                             None \<Rightarrow> r\<lparr>stream := snd (Load_decode dec filename (stream r) into)\<rparr>
                           | Some res \<Rightarrow>
                               r\<lparr>stream := snd (Load_decode dec filename (stream r) into),
                                 closes := closes r + 1\<rparr>)\<rparr>"
  using assms by (auto simp: Load_def Close_def split: prod.splits option.splits)

lemma Load_decode_by_tag:
  "Load_decode dec filename s into =
     (let tag = ToLower (after_last_separator filename) in
      if tag = ''json'' then json_Decode dec s into
      else if tag = ''xml'' then xml_Decode dec s into
      else if tag = ''yml'' \<or> tag = ''yaml'' then
        (case fault s of
           Some err \<Rightarrow> ((Some err, into), s\<lparr>pending := []\<rparr>)
         | None \<Rightarrow> (yaml_Unmarshal dec (pending s) into, s\<lparr>pending := []\<rparr>))
      else json_Decode dec s into)"
  by (simp add: Load_decode_def fileExtension_after_last_separator ReadAll_def Let_def
        split: option.splits)

text \<open>
  C3. When \<open>GetReader\<close> returned a handle, \<open>Load\<close> leaves it with one more call of
  \<open>Close\<close> if it has a \<open>Close\<close> method and with none if it has not, whichever decoder
  runs and whether the read or the decoding fails or succeeds.
\<close>

theorem C3_handle_closed_once_iff_closeable:
  assumes "GetReader l ord w filename = Inr r"
  shows "\<exists>r'. handle (Load l ord w dec filename into) = Some r' \<and>
              closer r' = closer r \<and>
              closes r' = closes r + (if closer r = None then 0 else 1)"
  unfolding Load_acquired [OF assms] by (cases "closer r") simp_all

theorem C3_handle_closed_once_iff_closeable_witness:
  "GetReader DefaultLoader [0] example_world ''broken.yaml'' =
     Inr \<lparr>stream = \<lparr>pending = ''[1] [2]'', fault = Some (CollaboratorError ''read failed'')\<rparr>,
           closer = Some None, closes = 0\<rparr> \<and>
   returned (Load DefaultLoader [0] example_world example_decoders ''broken.yaml'' '''') =
     Some (CollaboratorError ''read failed'') \<and>
   (\<exists>r'. handle (Load DefaultLoader [0] example_world example_decoders ''broken.yaml'' '''') = Some r' \<and>
         closer r' = Some None \<and> closes r' = 1)"
proof -
  have g: "GetReader DefaultLoader [0] example_world ''broken.yaml'' =
     Inr \<lparr>stream = \<lparr>pending = ''[1] [2]'', fault = Some (CollaboratorError ''read failed'')\<rparr>,
           closer = Some None, closes = 0\<rparr>"
    by code_simp
  have e: "returned (Load DefaultLoader [0] example_world example_decoders ''broken.yaml'' '''') =
     Some (CollaboratorError ''read failed'')"
    by code_simp
  from C3_handle_closed_once_iff_closeable [OF g, of example_decoders "''''"] g e
  show ?thesis by simp
qed

text \<open>
  C4, as the code has it. When the handle is closeable and its \<open>Close\<close> fails with any
  error \<open>e\<close>, \<open>Load\<close> returns the error and the target of the decoding step, so a failure
  to read or to decode is surfaced; \<open>Close\<close> has been called once, and \<open>e\<close> is part
  of nothing that \<open>Load\<close> returns.
\<close>

theorem C4_release_error_discarded:
  assumes "GetReader l ord w filename = Inr r" and "closer r = Some (Some e)"
  shows "returned (Load l ord w dec filename into) =
           fst (fst (Load_decode dec filename (stream r) into)) \<and>
         target (Load l ord w dec filename into) =
           snd (fst (Load_decode dec filename (stream r) into)) \<and>
         map_option closes (handle (Load l ord w dec filename into)) = Some (closes r + 1)"
  unfolding Load_acquired [OF assms(1)] using assms(2) by simp

theorem C4_release_error_discarded_witness:
  "GetReader DefaultLoader [0] example_world ''s3://bucket1/key1.xml'' =
     Inr \<lparr>stream = \<lparr>pending = ''[1] [2]'', fault = None\<rparr>,
           closer = Some (Some (CollaboratorError ''close failed'')), closes = 0\<rparr> \<and>
   fst (fst (Load_decode example_decoders ''s3://bucket1/key1.xml''
               \<lparr>pending = ''[1] [2]'', fault = None\<rparr> '''')) =
     Some (CollaboratorError ''XML syntax error'') \<and>
   returned (Load DefaultLoader [0] example_world example_decoders ''s3://bucket1/key1.xml'' '''') =
     Some (CollaboratorError ''XML syntax error'') \<and>
   map_option closes
     (handle (Load DefaultLoader [0] example_world example_decoders ''s3://bucket1/key1.xml'' ''''))
     = Some 1"
proof -
  let ?r = "\<lparr>stream = \<lparr>pending = ''[1] [2]'', fault = None\<rparr>,
           closer = Some (Some (CollaboratorError ''close failed'')), closes = 0\<rparr>"
  have g: "GetReader DefaultLoader [0] example_world ''s3://bucket1/key1.xml'' = Inr ?r"
    by code_simp
  have c: "closer ?r = Some (Some (CollaboratorError ''close failed''))"
    by simp
  have d: "fst (fst (Load_decode example_decoders ''s3://bucket1/key1.xml''
               \<lparr>pending = ''[1] [2]'', fault = None\<rparr> '''')) =
     Some (CollaboratorError ''XML syntax error'')"
    by code_simp
  from C4_release_error_discarded [OF g c, of example_decoders "''''"] g d
  show ?thesis by simp
qed

text \<open>
  C4 as the specification states it fails: \<open>Close\<close> fails, the decoding succeeds, and
  \<open>Load\<close> returns \<open>nil\<close>. The package logs nothing, so the error of \<open>Close\<close> is lost.
\<close>

theorem C4_release_error_dropped_counterexample:
  "GetReader DefaultLoader [0] example_world ''s3://bucket1/key1.json'' =
     Inr \<lparr>stream = \<lparr>pending = ''[1] [2]'', fault = None\<rparr>,
           closer = Some (Some (CollaboratorError ''close failed'')), closes = 0\<rparr> \<and>
   fst (Close \<lparr>stream = \<lparr>pending = [], fault = None\<rparr>,
               closer = Some (Some (CollaboratorError ''close failed'')), closes = 0\<rparr>) =
     Some (CollaboratorError ''close failed'') \<and>
   Load DefaultLoader [0] example_world example_decoders ''s3://bucket1/key1.json'' '''' =
     \<lparr>returned = None, target = ''[1]'',
      handle = Some \<lparr>stream = \<lparr>pending = [], fault = None\<rparr>,
                      closer = Some (Some (CollaboratorError ''close failed'')), closes = 1\<rparr>\<rparr>"
  by code_simp

text \<open>
  C5, as the code has it. For the tags \<open>yml\<close> and \<open>yaml\<close> \<open>Load\<close> reads the stream to
  its end with \<open>ioutil.ReadAll\<close> before it decodes, also when the read fails. For every
  other tag it hands the stream to the XML or the JSON decoder and returns: the stream is
  left as that decoder leaves it.
\<close>

theorem C5_stream_read_to_end_for_yaml_only:
  assumes "GetReader l ord w filename = Inr r"
  shows "\<exists>r'. handle (Load l ord w dec filename into) = Some r' \<and>
           (ToLower (after_last_separator filename) \<in> {''yml'', ''yaml''} \<longrightarrow>
              pending (stream r') = []) \<and>
           (ToLower (after_last_separator filename) = ''xml'' \<longrightarrow>
              stream r' = snd (xml_Decode dec (stream r) into)) \<and>
           (ToLower (after_last_separator filename) \<notin> {''xml'', ''yml'', ''yaml''} \<longrightarrow>
              stream r' = snd (json_Decode dec (stream r) into))"
  unfolding Load_acquired [OF assms] Load_decode_by_tag
  by (cases "closer r") (auto simp: Let_def split: option.splits)

theorem C5_stream_read_to_end_for_yaml_only_witness:
  "GetReader in_memory_only [0] example_world ''mem:a.yml'' =
     Inr \<lparr>stream = \<lparr>pending = ''[1] [2]'', fault = None\<rparr>, closer = None, closes = 0\<rparr> \<and>
   ToLower (after_last_separator ''mem:a.yml'') = ''yml'' \<and>
   (\<exists>r'. handle (Load in_memory_only [0] example_world example_decoders ''mem:a.yml'' '''') = Some r' \<and>
         pending (stream r') = [])"
proof -
  have g: "GetReader in_memory_only [0] example_world ''mem:a.yml'' =
     Inr \<lparr>stream = \<lparr>pending = ''[1] [2]'', fault = None\<rparr>, closer = None, closes = 0\<rparr>"
    by code_simp
  have t: "ToLower (after_last_separator ''mem:a.yml'') = ''yml''"
    by code_simp
  from C5_stream_read_to_end_for_yaml_only [OF g, of example_decoders "''''"] g t
  show ?thesis by auto
qed

text \<open>
  C5 as the specification states it fails for a \<open>.json\<close> filename whose stream is
  longer than the first read of the decoder: the decoding of the first value succeeds
  and \<open>Load\<close> returns with 91 of the 603 bytes of the stream still unread.
\<close>

theorem C5_json_stream_not_consumed_counterexample:
  "map_option (\<lambda>r. length (pending (stream r)))
     (case GetReader DefaultLoader [0] example_world ''long.json'' of
        Inl err \<Rightarrow> None | Inr r \<Rightarrow> Some r) = Some 603 \<and>
   returned (Load DefaultLoader [0] example_world example_decoders ''long.json'' '''') = None \<and>
   target (Load DefaultLoader [0] example_world example_decoders ''long.json'' '''') = ''[1]'' \<and>
   map_option (\<lambda>r. length (pending (stream r)))
     (handle (Load DefaultLoader [0] example_world example_decoders ''long.json'' '''')) = Some 91"
  by code_simp

text \<open>
  Where the extension of the code and the suffix of the specification agree and where
  they part: for a filename with a separator the extension is the suffix, and for a
  filename with no separator, which has no suffix, the extension is the filename.
\<close>

lemma fileExtension_with_separator:
  "suffix_after_last_separator filename = Some e \<Longrightarrow> fileExtension filename = Inr e"
  by (auto simp: suffix_after_last_separator_def fileExtension_after_last_separator
        after_last_separator_def split: if_splits)

lemma fileExtension_without_separator:
  assumes "suffix_after_last_separator filename = None"
  shows "fileExtension filename = Inr filename"
proof -
  from assms have "\<forall>c \<in> set (rev filename). c \<noteq> CHR ''.''"
    by (auto simp: suffix_after_last_separator_def split: if_splits)
  then have tw: "takeWhile (\<lambda>c. c \<noteq> CHR ''.'') (rev filename) = rev filename"
    by (simp add: takeWhile_eq_all_conv)
  show ?thesis
    unfolding fileExtension_after_last_separator after_last_separator_def tw by simp
qed

text \<open>
  The decoding step never panics on the index, an extension that is none of the four
  tags in lower case gets the JSON decoder, and two filenames whose extensions are equal
  up to the case of the ASCII letters are decoded alike.
\<close>

lemma unrecognised_extension_decoded_as_json:
  "ToLower (after_last_separator filename) \<notin> {''json'', ''xml'', ''yml'', ''yaml''} \<Longrightarrow>
     Load_decode dec filename s into = json_Decode dec s into"
  by (simp add: Load_decode_by_tag)

lemma decoding_ignores_case_of_extension:
  "ToLower (after_last_separator f) = ToLower (after_last_separator g) \<Longrightarrow>
     Load_decode dec f s into = Load_decode dec g s into"
  by (simp add: Load_decode_by_tag)

text \<open>
  C8 fails on the code at the filename \<open>xml\<close>. The comment of \<open>Load\<close> says that the
  encoding is chosen "by filename extension" and that it "tries JSON if none match".
  The filename \<open>xml\<close> has no separator, so it has no suffix, as \<open>noext\<close> has none; but the
  last element of the split is then the filename itself, and \<open>Load\<close> decodes \<open>xml\<close> with
  the XML decoder, where \<open>noext\<close> gets the JSON decoder.
\<close>

theorem C8_no_suffix_decoded_as_xml:
  "suffix_after_last_separator ''xml'' = None \<and>
   fileExtension ''xml'' = Inr ''xml'' \<and>
   Load_decode example_decoders ''xml'' \<lparr>pending = ''[1] [2]'', fault = None\<rparr> '''' =
     xml_Decode example_decoders \<lparr>pending = ''[1] [2]'', fault = None\<rparr> '''' \<and>
   Load_decode example_decoders ''xml'' \<lparr>pending = ''[1] [2]'', fault = None\<rparr> '''' \<noteq>
     json_Decode example_decoders \<lparr>pending = ''[1] [2]'', fault = None\<rparr> '''' \<and>
   returned (Load DefaultLoader [0] example_world example_decoders ''xml'' '''') =
     Some (CollaboratorError ''XML syntax error'') \<and>
   suffix_after_last_separator ''noext'' = None \<and>
   returned (Load DefaultLoader [0] example_world example_decoders ''noext'' '''') = None"
  by code_simp

text \<open>
  C9 fails on the code at the filenames \<open>xml\<close> and \<open>noext\<close>, by the same defect: neither
  has a separator, so the substring after the last separator is the same for both (there
  is none), and yet the tags differ and the two are decoded by different decoders. The
  tag is therefore not a function of that substring. With a separator the claim holds:
  \<open>a.JSON\<close> and \<open>a.json\<close> are decoded alike.
\<close>

theorem C9_same_suffix_decoded_differently:
  "suffix_after_last_separator ''xml'' = suffix_after_last_separator ''noext'' \<and>
   fileExtension ''xml'' = Inr ''xml'' \<and> fileExtension ''noext'' = Inr ''noext'' \<and>
   Load_decode example_decoders ''xml'' \<lparr>pending = ''[1] [2]'', fault = None\<rparr> '''' \<noteq>
     Load_decode example_decoders ''noext'' \<lparr>pending = ''[1] [2]'', fault = None\<rparr> '''' \<and>
   suffix_after_last_separator ''a.JSON'' = Some ''JSON'' \<and>
   suffix_after_last_separator ''a.json'' = Some ''json'' \<and>
   Load_decode example_decoders ''a.JSON'' \<lparr>pending = ''[1] [2]'', fault = None\<rparr> '''' =
     Load_decode example_decoders ''a.json'' \<lparr>pending = ''[1] [2]'', fault = None\<rparr> ''''"
  by code_simp

section \<open>GetReadCloser\<close>

text \<open>
  C10. When \<open>GetReader\<close> returns a reader, \<open>GetReadCloser\<close> returns a closeable handle
  on the same stream: the reader itself when it has a \<open>Close\<close> method, and otherwise the
  reader inside \<open>ioutil.NopCloser\<close>, whose \<open>Close\<close> returns \<open>nil\<close> and changes nothing.
  When \<open>GetReader\<close> fails, \<open>GetReadCloser\<close> fails with the same error.
\<close>

theorem C10_GetReadCloser_wraps_GetReader:
  "(GetReader l ord w filename = Inr r \<longrightarrow>
      (\<exists>rc. GetReadCloser l ord w filename = Inr rc \<and>
            ReadCloser_stream rc = stream r \<and>
            (closer r \<noteq> None \<longrightarrow> rc = Own r) \<and>
            (closer r = None \<longrightarrow> rc = NopCloser r \<and> ReadCloser_Close rc = (None, rc)))) \<and>
   (GetReader l ord w filename = Inl err \<longrightarrow> GetReadCloser l ord w filename = Inl err)"
  by (cases "closer r") (auto simp: GetReadCloser_def)

theorem C10_GetReadCloser_wraps_GetReader_witness:
  "GetReader in_memory_only [0] example_world ''mem:a.yml'' =
     Inr \<lparr>stream = \<lparr>pending = ''[1] [2]'', fault = None\<rparr>, closer = None, closes = 0\<rparr> \<and>
   GetReadCloser in_memory_only [0] example_world ''mem:a.yml'' =
     Inr (NopCloser \<lparr>stream = \<lparr>pending = ''[1] [2]'', fault = None\<rparr>, closer = None, closes = 0\<rparr>) \<and>
   GetReader DefaultLoader [0] example_world ''cfg.json'' =
     Inr \<lparr>stream = \<lparr>pending = ''[1] [2]'', fault = None\<rparr>, closer = Some None, closes = 0\<rparr> \<and>
   GetReadCloser DefaultLoader [0] example_world ''cfg.json'' =
     Inr (Own \<lparr>stream = \<lparr>pending = ''[1] [2]'', fault = None\<rparr>, closer = Some None, closes = 0\<rparr>) \<and>
   GetReader in_memory_only [0] example_world ''cfg.json'' = Inl ErrorNoReader \<and>
   GetReadCloser in_memory_only [0] example_world ''cfg.json'' = Inl ErrorNoReader"
proof -
  let ?plain = "\<lparr>stream = \<lparr>pending = ''[1] [2]'', fault = None\<rparr>, closer = None, closes = 0\<rparr>"
  let ?file = "\<lparr>stream = \<lparr>pending = ''[1] [2]'', fault = None\<rparr>, closer = Some None, closes = 0\<rparr>"
  have g1: "GetReader in_memory_only [0] example_world ''mem:a.yml'' = Inr ?plain"
    and g2: "GetReader DefaultLoader [0] example_world ''cfg.json'' = Inr ?file"
    and g3: "GetReader in_memory_only [0] example_world ''cfg.json'' = Inl ErrorNoReader"
    by code_simp+
  from C10_GetReadCloser_wraps_GetReader
         [of in_memory_only "[0]" example_world "''mem:a.yml''" ?plain ErrorNoReader]
       C10_GetReadCloser_wraps_GetReader
         [of DefaultLoader "[0]" example_world "''cfg.json''" ?file ErrorNoReader]
       C10_GetReadCloser_wraps_GetReader
         [of in_memory_only "[0]" example_world "''cfg.json''" ?plain ErrorNoReader]
       g1 g2 g3
  show ?thesis by auto
qed

end
